theory Spec2Isabelle
  imports
    Main
    "HOL-Library.Word"
    "HOL-Library.Signed_Division"
    "HOL-Library.Char_ord"
    "HOL-Library.List_Lexorder"
begin

section \<open>The number pipeline: data model\<close>

text \<open>
  Two versions of the number pipeline are verified side by side:
  \<^item> \<^verbatim>\<open>number_pipeline.cpp\<close>: the factory is an if-chain, the reader reports an
    unopenable file on \<^verbatim>\<open>std::cerr\<close> and returns an empty vector;
  \<^item> \<^verbatim>\<open>part_000\<close>: the factory walks a \<^verbatim>\<open>std::map\<close> registry of prefixes, the reader
    throws \<^verbatim>\<open>std::runtime_error\<close> on an unopenable file.
  The filters, the observers and \<^verbatim>\<open>NumberProcessor::run\<close> are the same text in both.
  Definitions of \<^verbatim>\<open>part_000\<close> whose name is already taken carry the suffix \<open>_reg\<close>.

  A C++ \<^verbatim>\<open>int\<close> is a 32-bit two's complement word, read with \<open>sint\<close>.
\<close>

type_synonym cint = "32 word"

subsection \<open>Filters\<close>

text \<open>The three implementations of \<^verbatim>\<open>INumberFilter\<close>; \<^verbatim>\<open>GreaterThanFilter\<close> has the
  field \<^verbatim>\<open>threshold\<close>.\<close>

datatype number_filter = EvenFilter | OddFilter | GreaterThanFilter cint

text \<open>
  \<^verbatim>\<open>keep\<close>, by virtual dispatch. The operator \<^verbatim>\<open>%\<close> of C++ truncates towards zero, which is
  \<open>smod\<close> on the signed value; \<^verbatim>\<open>number > threshold\<close> compares signed values.
\<close>

fun keep :: "number_filter \<Rightarrow> cint \<Rightarrow> bool" where
  "keep EvenFilter number = (sint number smod 2 = 0)"
| "keep OddFilter number = (sint number smod 2 \<noteq> 0)"
| "keep (GreaterThanFilter threshold) number = (threshold <s number)"

subsection \<open>Exceptions\<close>

text \<open>The two exception classes the pipeline throws, each with its \<^verbatim>\<open>what()\<close> message.\<close>

datatype exn = invalid_argument string | runtime_error string

fun what :: "exn \<Rightarrow> string" where
  "what (invalid_argument msg) = msg"
| "what (runtime_error msg) = msg"

subsection \<open>Formatted extraction \<^verbatim>\<open>stream >> int\<close>\<close>

text \<open>
  Both the factory (\<^verbatim>\<open>iss >> threshold\<close>) and the reader (\<^verbatim>\<open>file >> num\<close>) use the
  formatted extraction of the C++ standard library, in the classic locale with the
  default flags (\<^verbatim>\<open>skipws\<close>, \<^verbatim>\<open>dec\<close>). A stream is the list of characters not yet read.
  The extraction is library code, not code of the repository: the definitions below
  follow the C++ standard (formatted input of arithmetic types, \<^verbatim>\<open>num_get\<close> stages 2
  and 3), for which an out-of-range value sets \<^verbatim>\<open>failbit\<close>.
\<close>

definition isspace :: "char \<Rightarrow> bool" where
  "isspace c = (c = CHR '' '' \<or> c = CHR 0x09 \<or> c = CHR 0x0A \<or> c = CHR 0x0B
     \<or> c = CHR 0x0C \<or> c = CHR 0x0D)"

definition isdigit :: "char \<Rightarrow> bool" where
  "isdigit c = (48 \<le> (of_char c :: nat) \<and> (of_char c :: nat) \<le> 57)"

definition digit_val :: "char \<Rightarrow> int" where
  "digit_val c = int (of_char c) - 48"

definition decimal :: "string \<Rightarrow> int" where
  "decimal ds = foldl (\<lambda>acc c. 10 * acc + digit_val c) 0 ds"

text \<open>The optional sign: whether it is a minus, and the characters after it.\<close>

fun get_sign :: "string \<Rightarrow> bool \<times> string" where
  "get_sign [] = (False, [])"
| "get_sign (c # cs) =
     (if c = CHR ''-'' then (True, cs)
      else if c = CHR ''+'' then (False, cs)
      else (False, c # cs))"

text \<open>
  \<^verbatim>\<open>std::num_get::get\<close> for the conversion \<^verbatim>\<open>%d\<close>: one optional sign, then the longest
  run of decimal digits. No digit at all is a failure (\<open>None\<close>); otherwise the value
  read, as a mathematical integer, and the characters left in the stream.
\<close>

definition num_get :: "string \<Rightarrow> (int \<times> string) option" where
  "num_get s =
     (case get_sign s of (neg, body) \<Rightarrow>
        let ds = takeWhile isdigit body in
        if ds = [] then None
        else Some (if neg then - decimal ds else decimal ds, dropWhile isdigit body))"

text \<open>
  \<^verbatim>\<open>operator>>(int&)\<close>: skip leading white space, read the number, and set \<^verbatim>\<open>failbit\<close>
  when there is no number or when it does not fit an \<^verbatim>\<open>int\<close>. \<open>None\<close> is the stream
  with \<^verbatim>\<open>failbit\<close> set, which is what \<^verbatim>\<open>!(iss >> threshold)\<close> and
  \<^verbatim>\<open>while (file >> num)\<close> test.
\<close>

definition extract_int :: "string \<Rightarrow> (cint \<times> string) option" where
  "extract_int s =
     (case num_get (dropWhile isspace s) of
        None \<Rightarrow> None
      | Some (v, rest) \<Rightarrow>
          if - (2 ^ 31) \<le> v \<and> v \<le> 2 ^ 31 - 1 then Some (word_of_int v, rest) else None)"

subsection \<open>The filter factories\<close>

text \<open>\<^verbatim>\<open>s.rfind(key, 0) == 0\<close>: the string \<open>s\<close> starts with \<open>key\<close>.\<close>

definition rfind0 :: "string \<Rightarrow> string \<Rightarrow> bool" where
  "rfind0 s key = (take (length key) s = key)"

text \<open>\<^verbatim>\<open>FilterFactory::create_filter\<close> of \<^verbatim>\<open>number_pipeline.cpp\<close>: the if-chain.\<close>

definition create_filter :: "string \<Rightarrow> exn + number_filter" where
  "create_filter filter_str =
     (if filter_str = ''EVEN'' then Inr EvenFilter
      else if filter_str = ''ODD'' then Inr OddFilter
      else if rfind0 filter_str ''GT'' then
        (case extract_int (drop 2 filter_str) of
           None \<Rightarrow> Inl (invalid_argument ''Invalid GT filter format'')
         | Some (threshold, _) \<Rightarrow> Inr (GreaterThanFilter threshold))
      else Inl (invalid_argument (''Unknown filter: '' @ filter_str)))"

text \<open>
  \<^verbatim>\<open>FilterFactory\<close> of \<^verbatim>\<open>part_000\<close>. The registry is a \<^verbatim>\<open>std::map\<close>: an association
  list kept sorted by key, so that iteration is in key order whatever the order of the
  assignments \<^verbatim>\<open>registry[key] = f\<close>.
\<close>

type_synonym FactoryFunction = "string \<Rightarrow> exn + number_filter"

fun map_assign :: "string \<Rightarrow> 'v \<Rightarrow> (string \<times> 'v) list \<Rightarrow> (string \<times> 'v) list" where
  "map_assign k v [] = [(k, v)]"
| "map_assign k v ((k', v') # m) =
     (if k = k' then (k, v) # m
      else if k < k' then (k, v) # (k', v') # m
      else (k', v') # map_assign k v m)"

definition gt_factory :: FactoryFunction where
  "gt_factory input =
     (case extract_int (drop 2 input) of
        None \<Rightarrow> Inl (invalid_argument (''Invalid GT filter format: '' @ input))
      | Some (threshold, _) \<Rightarrow> Inr (GreaterThanFilter threshold))"

definition registry :: "(string \<times> FactoryFunction) list" where
  "registry =
     map_assign ''GT'' gt_factory
       (map_assign ''ODD'' (\<lambda>_. Inr OddFilter)
         (map_assign ''EVEN'' (\<lambda>_. Inr EvenFilter) []))"

text \<open>The loop of \<^verbatim>\<open>create_filter\<close> over the registry: the first key that is a prefix of
  the token decides; no such key is the unknown-filter error.\<close>

fun lookup_prefix :: "(string \<times> FactoryFunction) list \<Rightarrow> string \<Rightarrow> exn + number_filter" where
  "lookup_prefix [] filter_str = Inl (invalid_argument (''Unknown filter: '' @ filter_str))"
| "lookup_prefix ((key, factory) # m) filter_str =
     (if rfind0 filter_str key then factory filter_str else lookup_prefix m filter_str)"

definition create_filter_reg :: "string \<Rightarrow> exn + number_filter" where
  "create_filter_reg filter_str = lookup_prefix registry filter_str"

subsection \<open>The world: files, observer objects, output streams\<close>

text \<open>
  The observers are objects reached through pointers (\<^verbatim>\<open>std::vector<INumberObserver*>\<close>),
  so they live in a store indexed by address. \<open>calls\<close> records every virtual call made
  on an observer, in order; nothing reads it.
\<close>

text \<open>\<^verbatim>\<open>CountObserver\<close> holds its field \<^verbatim>\<open>count\<close>, an \<^verbatim>\<open>int\<close>; \<^verbatim>\<open>PrintObserver\<close> has no field.\<close>

datatype observer = PrintObserver | CountObserver cint

type_synonym addr = nat

datatype call = on_number_call addr cint | on_finished_call addr

record world =
  files :: "string \<Rightarrow> string option"
  heap :: "addr \<Rightarrow> observer"
  cout :: "string list"
  cerr :: "string list"
  calls :: "call list"

text \<open>\<^verbatim>\<open>operator<<(int)\<close>: the decimal digits, with a minus sign for a negative value.\<close>

fun show_nat :: "nat \<Rightarrow> string" where
  "show_nat n =
     (if n < 10 then [''0123456789'' ! n]
      else show_nat (n div 10) @ [''0123456789'' ! (n mod 10)])"

declare show_nat.simps [simp del]

definition show_int :: "cint \<Rightarrow> string" where
  "show_int i = (if sint i < 0 then CHR ''-'' # show_nat (nat (- sint i)) else show_nat (nat (sint i)))"

subsection \<open>Observers\<close>

definition on_number :: "addr \<Rightarrow> cint \<Rightarrow> world \<Rightarrow> world" where
  "on_number obs number w =
     (let w' = w\<lparr>calls := calls w @ [on_number_call obs number]\<rparr> in
      case heap w obs of
        PrintObserver \<Rightarrow> w'\<lparr>cout := cout w @ [show_int number]\<rparr>
      | CountObserver count \<Rightarrow> w'\<lparr>heap := (heap w)(obs := CountObserver (count + 1))\<rparr>)"

definition on_finished :: "addr \<Rightarrow> world \<Rightarrow> world" where
  "on_finished obs w =
     (let w' = w\<lparr>calls := calls w @ [on_finished_call obs]\<rparr> in
      case heap w obs of
        PrintObserver \<Rightarrow> w'
      | CountObserver count \<Rightarrow>
          w'\<lparr>cout := cout w @ [''Total numbers passed filter: '' @ show_int count]\<rparr>)"

subsection \<open>Readers\<close>

text \<open>The loop \<^verbatim>\<open>while (file >> num) numbers.push_back(num)\<close>.\<close>

function read_loop :: "string \<Rightarrow> cint list" where
  "read_loop s =
     (case extract_int s of
        None \<Rightarrow> []
      | Some (num, rest) \<Rightarrow> num # read_loop rest)"
  by pat_completeness auto
termination
proof (relation "measure length")
  show "wf (measure length)" by simp
next
  fix s :: string and x2 :: "cint \<times> string" and num :: cint and rest :: string
  assume ex: "extract_int s = Some x2" and x2: "(num, rest) = x2"
  define d where "d = dropWhile isspace s"
  obtain v where ng: "num_get d = Some (v, rest)"
    using ex x2 unfolding d_def
    by (auto simp: extract_int_def split: option.splits if_splits)
  obtain neg body where gs: "get_sign d = (neg, body)"
    by (cases "get_sign d")
  have body: "length body \<le> length d"
    using gs by (cases d) (auto split: if_splits)
  have digits: "takeWhile isdigit body \<noteq> []" and rest: "rest = dropWhile isdigit body"
    using ng gs by (auto simp: num_get_def Let_def split: if_splits)
  have "length (takeWhile isdigit body) + length (dropWhile isdigit body) = length body"
    by (metis length_append takeWhile_dropWhile_id)
  with digits have "length rest < length body"
    using rest by (cases "takeWhile isdigit body") auto
  moreover have "length d \<le> length s"
    unfolding d_def by (rule length_dropWhile_le)
  ultimately show "(rest, s) \<in> measure length"
    using body by simp
qed

text \<open>An \<^verbatim>\<open>INumberReader\<close>: it may write a diagnostic, and it returns the numbers or throws.\<close>

type_synonym reader = "string \<Rightarrow> world \<Rightarrow> (exn + cint list) \<times> world"

text \<open>\<^verbatim>\<open>FileNumberReader::read_numbers\<close> of \<^verbatim>\<open>number_pipeline.cpp\<close>: an unopenable file
  is reported on \<^verbatim>\<open>std::cerr\<close> and read as no numbers.\<close>

definition read_numbers :: reader where
  "read_numbers filename w =
     (case files w filename of
        None \<Rightarrow> (Inr [], w\<lparr>cerr := cerr w @ [''Error: Cannot open file '' @ filename]\<rparr>)
      | Some content \<Rightarrow> (Inr (read_loop content), w))"

text \<open>\<^verbatim>\<open>FileNumberReader::read_numbers\<close> of \<^verbatim>\<open>part_000\<close>: an unopenable file throws.\<close>

definition read_numbers_reg :: reader where
  "read_numbers_reg filename w =
     (case files w filename of
        None \<Rightarrow> (Inl (runtime_error (''Cannot open file: '' @ filename)), w)
      | Some content \<Rightarrow> (Inr (read_loop content), w))"

subsection \<open>The processor\<close>

text \<open>The inner loop \<^verbatim>\<open>for (auto* obs : observers) obs->on_number(number)\<close>.\<close>

fun notify_number :: "addr list \<Rightarrow> cint \<Rightarrow> world \<Rightarrow> world" where
  "notify_number [] number w = w"
| "notify_number (obs # observers) number w = notify_number observers number (on_number obs number w)"

text \<open>The outer loop \<^verbatim>\<open>for (int number : numbers)\<close>.\<close>

fun process_numbers :: "number_filter \<Rightarrow> addr list \<Rightarrow> cint list \<Rightarrow> world \<Rightarrow> world" where
  "process_numbers flt observers [] w = w"
| "process_numbers flt observers (number # numbers) w =
     process_numbers flt observers numbers
       (if keep flt number then notify_number observers number w else w)"

text \<open>The final loop \<^verbatim>\<open>for (auto* obs : observers) obs->on_finished()\<close>.\<close>

fun notify_finished :: "addr list \<Rightarrow> world \<Rightarrow> world" where
  "notify_finished [] w = w"
| "notify_finished (obs # observers) w = notify_finished observers (on_finished obs w)"

text \<open>\<^verbatim>\<open>NumberProcessor::run\<close>; an exception of the reader leaves through it.\<close>

definition run :: "reader \<Rightarrow> number_filter \<Rightarrow> addr list \<Rightarrow> string \<Rightarrow> world \<Rightarrow> (exn + unit) \<times> world" where
  "run rd flt observers filename w =
     (case rd filename w of
        (Inl e, w') \<Rightarrow> (Inl e, w')
      | (Inr numbers, w') \<Rightarrow>
          (Inr (), notify_finished observers (process_numbers flt observers numbers w')))"

subsection \<open>\<^verbatim>\<open>main\<close>\<close>

text \<open>
  \<open>args\<close> are \<^verbatim>\<open>argv[1]\<close>, \<^verbatim>\<open>argv[2]\<close>, ...: \<^verbatim>\<open>argc\<close> is one more than their number. The
  result is the exit code. The two observers are locals of \<^verbatim>\<open>main\<close>, at two distinct
  addresses, freshly constructed (\<^verbatim>\<open>count = 0\<close>).
\<close>

definition printObserver :: addr where
  "printObserver = 0"

definition countObserver :: addr where
  "countObserver = 1"

definition usage :: "world \<Rightarrow> world" where
  "usage w = w\<lparr>cerr := cerr w @
     [''Usage: ./number_pipeline <FILTER> <FILENAME>'',
      ''Example: ./number_pipeline EVEN numbers.txt'']\<rparr>"

text \<open>The body of the \<^verbatim>\<open>try\<close> block after the filter is made, and the \<^verbatim>\<open>catch\<close>.\<close>

definition pipeline :: "reader \<Rightarrow> (exn + number_filter) \<Rightarrow> string \<Rightarrow> world \<Rightarrow> int \<times> world" where
  "pipeline rd made filename w =
     (case made of
        Inl e \<Rightarrow> (2, w\<lparr>cerr := cerr w @ [''Error: '' @ what e]\<rparr>)
      | Inr flt \<Rightarrow>
          let w1 = w\<lparr>heap := (heap w)(printObserver := PrintObserver, countObserver := CountObserver 0)\<rparr> in
          (case run rd flt [printObserver, countObserver] filename w1 of
             (Inl e, w2) \<Rightarrow> (2, w2\<lparr>cerr := cerr w2 @ [''Error: '' @ what e]\<rparr>)
           | (Inr _, w2) \<Rightarrow> (0, w2)))"

text \<open>\<^verbatim>\<open>main\<close> of \<^verbatim>\<open>number_pipeline.cpp\<close>.\<close>

definition main :: "string list \<Rightarrow> world \<Rightarrow> int \<times> world" where
  "main args w =
     (if length args + 1 \<noteq> 3 then (1, usage w)
      else pipeline read_numbers (create_filter (args ! 0)) (args ! 1) w)"

text \<open>\<^verbatim>\<open>main\<close> of \<^verbatim>\<open>part_000\<close>.\<close>

definition main_reg :: "string list \<Rightarrow> world \<Rightarrow> int \<times> world" where
  "main_reg args w =
     (if length args + 1 \<noteq> 3 then (1, usage w)
      else pipeline read_numbers_reg (create_filter_reg (args ! 0)) (args ! 1) w)"

section \<open>The specification's vocabulary\<close>

text \<open>
  The definitions of this section are not translated from the code: they write down the
  words of the specification, to be compared with the code.
\<close>

subsection \<open>The token grammar of the specification\<close>

text \<open>A decimal integer: one decimal digit or more, and nothing else.\<close>

definition spec_decimal :: "string \<Rightarrow> int option" where
  "spec_decimal ds = (if ds \<noteq> [] \<and> list_all isdigit ds then Some (decimal ds) else None)"

text \<open>An optionally signed decimal integer.\<close>

fun spec_signed_decimal :: "string \<Rightarrow> int option" where
  "spec_signed_decimal [] = None"
| "spec_signed_decimal (c # cs) =
     (if c = CHR ''-'' then map_option uminus (spec_decimal cs)
      else if c = CHR ''+'' then spec_decimal cs
      else spec_decimal (c # cs))"





subsection \<open>The error kinds of the specification\<close>

text \<open>
  Both factory errors are \<^verbatim>\<open>std::invalid_argument\<close>; the kind is told by the message.
\<close>

datatype error_kind = unknown_filter | invalid_filter_argument | source_unreadable

fun kind_of_error :: "exn \<Rightarrow> error_kind" where
  "kind_of_error (runtime_error msg) = source_unreadable"
| "kind_of_error (invalid_argument msg) =
     (if rfind0 msg ''Unknown filter: '' then unknown_filter else invalid_filter_argument)"

text \<open>A message carries a token when the token occurs in it.\<close>

fun carries :: "string \<Rightarrow> string \<Rightarrow> bool" where
  "carries [] token = (token = [])"
| "carries (c # msg) token = (rfind0 (c # msg) token \<or> carries msg token)"

subsection \<open>Reading as the specification words it\<close>

text \<open>The white-space separated tokens of a text.\<close>

function tokens :: "string \<Rightarrow> string list" where
  "tokens s =
     (case dropWhile isspace s of
        [] \<Rightarrow> []
      | c # cs \<Rightarrow>
          (c # takeWhile (\<lambda>x. \<not> isspace x) cs) # tokens (dropWhile (\<lambda>x. \<not> isspace x) cs))"
  by pat_completeness auto
termination
proof (relation "measure length")
  show "wf (measure length)" by simp
next
  fix s :: string and c :: char and cs :: string
  assume d: "dropWhile isspace s = c # cs"
  have "length (dropWhile (\<lambda>x. \<not> isspace x) cs) \<le> length cs"
    by (rule length_dropWhile_le)
  moreover have "length (c # cs) \<le> length s"
    unfolding d [symmetric] by (rule length_dropWhile_le)
  ultimately show "(dropWhile (\<lambda>x. \<not> isspace x) cs, s) \<in> measure length"
    by simp
qed

text \<open>A token that parses as an integer: an optionally signed decimal integer that fits
  an \<^verbatim>\<open>int\<close>.\<close>

definition int_token :: "string \<Rightarrow> cint option" where
  "int_token t =
     (case spec_signed_decimal t of
        None \<Rightarrow> None
      | Some v \<Rightarrow> if - (2 ^ 31) \<le> v \<and> v \<le> 2 ^ 31 - 1 then Some (word_of_int v) else None)"

text \<open>The values of the maximal prefix of tokens that parse as integers.\<close>

fun integer_prefix :: "string list \<Rightarrow> cint list" where
  "integer_prefix [] = []"
| "integer_prefix (t # ts) =
     (case int_token t of None \<Rightarrow> [] | Some v \<Rightarrow> v # integer_prefix ts)"

definition spec_read_numbers :: "string \<Rightarrow> cint list" where
  "spec_read_numbers content = integer_prefix (tokens content)"

text \<open>The first token that does not parse as an integer, if there is one, together
  with the text that follows it.\<close>

function rejected_token :: "string \<Rightarrow> (string \<times> string) option" where
  "rejected_token s =
     (case dropWhile isspace s of
        [] \<Rightarrow> None
      | c # cs \<Rightarrow>
          (case int_token (c # takeWhile (\<lambda>x. \<not> isspace x) cs) of
             None \<Rightarrow> Some (c # takeWhile (\<lambda>x. \<not> isspace x) cs, dropWhile (\<lambda>x. \<not> isspace x) cs)
           | Some v \<Rightarrow> rejected_token (dropWhile (\<lambda>x. \<not> isspace x) cs)))"
  by pat_completeness auto
termination
proof (relation "measure length")
  show "wf (measure length)" by simp
next
  fix s :: string and c :: char and cs :: string and v :: cint
  assume d: "dropWhile isspace s = c # cs"
  have "length (dropWhile (\<lambda>x. \<not> isspace x) cs) \<le> length cs"
    by (rule length_dropWhile_le)
  moreover have "length (c # cs) \<le> length s"
    unfolding d [symmetric] by (rule length_dropWhile_le)
  ultimately show "(dropWhile (\<lambda>x. \<not> isspace x) cs, s) \<in> measure length"
    by simp
qed

subsection \<open>Calls, output format and example worlds\<close>

text \<open>Which calls are \<^verbatim>\<open>on_number\<close> calls.\<close>

fun is_number_call :: "call \<Rightarrow> bool" where
  "is_number_call (on_number_call obs number) = True"
| "is_number_call (on_finished_call obs) = False"

text \<open>
  The output format of the command line interface: each kept integer on its own line,
  then one line with the number of kept integers.
\<close>

definition expected_output :: "number_filter \<Rightarrow> cint list \<Rightarrow> string list" where
  "expected_output flt numbers =
     map show_int (filter (keep flt) numbers)
     @ [''Total numbers passed filter: ''
          @ show_int (of_nat (length (filter (keep flt) numbers)))]"

text \<open>A world with three readable files and nothing printed yet, for the examples.\<close>

definition example_world :: world where
  "example_world =
     \<lparr>files = [''numbers.txt'' \<mapsto> ''3 4 5 6 7 8'', ''odd.txt'' \<mapsto> ''1 3 5'',
        ''mixed.txt'' \<mapsto> ''7 12abc 5''],
      heap = (\<lambda>_. PrintObserver), cout = [], cerr = [], calls = []\<rparr>"

text \<open>Another world: the same \<^verbatim>\<open>numbers.txt\<close>, but other files, other objects in the store
  and a line already printed.\<close>

definition other_world :: world where
  "other_world =
     \<lparr>files = [''numbers.txt'' \<mapsto> ''3 4 5 6 7 8'', ''other.txt'' \<mapsto> ''10 20''],
      heap = (\<lambda>_. CountObserver 7), cout = [''printed earlier''], cerr = [], calls = []\<rparr>"

text \<open>A world whose file holds a word among the numbers.\<close>

definition trailing_world :: world where
  "trailing_world =
     \<lparr>files = [''words.txt'' \<mapsto> ''4 x 5''],
      heap = (\<lambda>_. PrintObserver), cout = [], cerr = [], calls = []\<rparr>"

section \<open>Evaluation on concrete inputs\<close>

declare read_loop.simps [simp del]

declare tokens.simps [simp del]

declare rejected_token.simps [simp del]

lemmas extract_eval =
  extract_int_def num_get_def isspace_def isdigit_def decimal_def digit_val_def

lemma registry_eq:
  "registry = [(''EVEN'', \<lambda>_. Inr EvenFilter), (''GT'', gt_factory), (''ODD'', \<lambda>_. Inr OddFilter)]"
  by (simp add: registry_def)

lemma create_filter_reg_eq:
  "create_filter_reg s =
     (if rfind0 s ''EVEN'' then Inr EvenFilter
      else if rfind0 s ''GT'' then gt_factory s
      else if rfind0 s ''ODD'' then Inr OddFilter
      else Inl (invalid_argument (''Unknown filter: '' @ s)))"
  by (simp add: create_filter_reg_def registry_eq)

section \<open>The filters\<close>

lemma smod_2_eq_0_iff: "(k smod 2 = 0) = (2 dvd k)" for k :: int
proof -
  have "(\<bar>k\<bar> mod 2 = 0) = (2 dvd k)"
    by presburger
  moreover have "(sgn k * (\<bar>k\<bar> mod 2) = 0) = (\<bar>k\<bar> mod 2 = 0)"
    by (cases "k = 0") (simp_all add: sgn_if)
  ultimately show ?thesis
    by (simp add: signed_modulo_int_def)
qed

text \<open>
  Claim C6. For every integer \<open>n\<close> and every threshold \<open>t\<close>, negative ones included,
  \<^verbatim>\<open>GreaterThanFilter(t).keep(n)\<close> is true exactly when \<open>n > t\<close> as signed integers. The
  token \<^verbatim>\<open>GT-5\<close> makes, in both factories, the filter with threshold \<open>-5\<close>, which keeps
  exactly the integers strictly greater than \<open>-5\<close>.
\<close>

theorem greater_than_keep_strict:
  "keep (GreaterThanFilter t) n = (sint t < sint n)
   \<and> create_filter ''GT-5'' = Inr (GreaterThanFilter (- 5))
   \<and> create_filter_reg ''GT-5'' = Inr (GreaterThanFilter (- 5))
   \<and> sint (- 5 :: cint) = - 5
   \<and> keep (GreaterThanFilter (- 5)) n = (- 5 < sint n)"
proof -
  have general: "keep (GreaterThanFilter t') n = (sint t' < sint n)" for t'
    by (simp add: word_sless_alt)
  have "create_filter ''GT-5'' = Inr (GreaterThanFilter (- 5))"
    by (simp add: create_filter_def rfind0_def extract_eval)
  moreover have "create_filter_reg ''GT-5'' = Inr (GreaterThanFilter (- 5))"
    by (simp add: create_filter_reg_eq gt_factory_def rfind0_def extract_eval)
  moreover have five: "sint (- 5 :: cint) = - 5"
    by simp
  moreover have "keep (GreaterThanFilter (- 5)) n = (- 5 < sint n)"
    using general [of "- 5"] five by simp
  ultimately show ?thesis
    using general [of t] by simp
qed

text \<open>
  Claim C7. For every integer \<open>n\<close>, \<^verbatim>\<open>EvenFilter.keep(n)\<close> and \<^verbatim>\<open>OddFilter.keep(n)\<close> are
  opposite: exactly one holds. Both use the same truncating remainder (that of \<open>-3\<close> by
  2 is \<open>-1\<close>), under which \<open>-3\<close> is odd and \<open>-4\<close> is even, and \<^verbatim>\<open>EvenFilter\<close> keeps exactly
  the multiples of two.
\<close>

theorem even_odd_opposite:
  "keep EvenFilter n \<noteq> keep OddFilter n
   \<and> keep EvenFilter n = (2 dvd sint n)
   \<and> sint (- 3 :: cint) smod 2 = - 1
   \<and> keep OddFilter (- 3) \<and> \<not> keep EvenFilter (- 3)
   \<and> keep EvenFilter (- 4) \<and> \<not> keep OddFilter (- 4)"
proof -
  have "keep EvenFilter n \<noteq> keep OddFilter n"
    by simp
  moreover have "keep EvenFilter n = (2 dvd sint n)"
    by (simp add: smod_2_eq_0_iff)
  moreover have "sint (- 3 :: cint) smod 2 = - 1"
    by (simp add: signed_modulo_int_def)
  moreover have "keep OddFilter (- 3) \<and> \<not> keep EvenFilter (- 3)"
    by (simp add: signed_modulo_int_def)
  moreover have "keep EvenFilter (- 4) \<and> \<not> keep OddFilter (- 4)"
    by (simp add: signed_modulo_int_def)
  ultimately show ?thesis
    by blast
qed

section \<open>The processor and the observers\<close>

lemma calls_on_number: "calls (on_number obs number w) = calls w @ [on_number_call obs number]"
  by (simp add: on_number_def Let_def split: observer.split)

lemma calls_on_finished: "calls (on_finished obs w) = calls w @ [on_finished_call obs]"
  by (simp add: on_finished_def Let_def split: observer.split)

lemma calls_notify_number:
  "calls (notify_number observers number w) =
     calls w @ map (\<lambda>obs. on_number_call obs number) observers"
  by (induction observers arbitrary: w) (simp_all add: calls_on_number)

lemma calls_notify_finished:
  "calls (notify_finished observers w) = calls w @ map on_finished_call observers"
  by (induction observers arbitrary: w) (simp_all add: calls_on_finished)

lemma calls_process_numbers:
  "calls (process_numbers flt observers numbers w) =
     calls w @ concat (map (\<lambda>number. map (\<lambda>obs. on_number_call obs number) observers)
       (filter (keep flt) numbers))"
  by (induction numbers arbitrary: w) (simp_all add: calls_notify_number)

lemma calls_run:
  assumes "rd filename w = (Inr numbers, w1)"
  shows "run rd flt observers filename w =
      (Inr (), notify_finished observers (process_numbers flt observers numbers w1))"
    and "calls (notify_finished observers (process_numbers flt observers numbers w1)) =
      calls w1 @ concat (map (\<lambda>number. map (\<lambda>obs. on_number_call obs number) observers)
        (filter (keep flt) numbers)) @ map on_finished_call observers"
  using assms by (simp_all add: run_def calls_notify_finished calls_process_numbers)

text \<open>The two observers of \<^verbatim>\<open>main\<close>: what the two loops print and leave alone.\<close>

lemma process_numbers_print_count:
  assumes "heap w p = PrintObserver" and "heap w c = CountObserver k" and "p \<noteq> c"
  shows "heap (process_numbers flt [p, c] numbers w) p = PrintObserver
    \<and> heap (process_numbers flt [p, c] numbers w) c =
        CountObserver (k + of_nat (length (filter (keep flt) numbers)))
    \<and> cout (process_numbers flt [p, c] numbers w) =
        cout w @ map show_int (filter (keep flt) numbers)
    \<and> cerr (process_numbers flt [p, c] numbers w) = cerr w
    \<and> files (process_numbers flt [p, c] numbers w) = files w"
  using assms
proof (induction numbers arbitrary: w k)
  case Nil
  then show ?case by simp
next
  case (Cons number numbers)
  show ?case
  proof (cases "keep flt number")
    case False
    with Cons.IH [OF Cons.prems] show ?thesis by simp
  next
    case True
    define w' where "w' = notify_number [p, c] number w"
    have w': "heap w' p = PrintObserver" "heap w' c = CountObserver (k + 1)"
      "cout w' = cout w @ [show_int number]" "cerr w' = cerr w" "files w' = files w"
      using Cons.prems by (simp_all add: w'_def on_number_def Let_def)
    have step: "process_numbers flt [p, c] (number # numbers) w =
        process_numbers flt [p, c] numbers w'"
      using True by (simp add: w'_def)
    from Cons.IH [OF w'(1) w'(2) \<open>p \<noteq> c\<close>] show ?thesis
      unfolding step by (simp add: w' True add.assoc)
  qed
qed

lemma finished_print_count:
  assumes "heap w p = PrintObserver" and "heap w c = CountObserver k" and "p \<noteq> c"
  shows "cout (notify_finished [p, c] w) =
      cout w @ [''Total numbers passed filter: '' @ show_int k]
    \<and> cerr (notify_finished [p, c] w) = cerr w
    \<and> files (notify_finished [p, c] w) = files w"
  using assms by (simp add: on_finished_def Let_def)

lemma print_count_output:
  assumes "heap w p = PrintObserver" and "heap w c = CountObserver 0" and "p \<noteq> c"
  shows "cout (notify_finished [p, c] (process_numbers flt [p, c] numbers w)) =
      cout w @ expected_output flt numbers
    \<and> cerr (notify_finished [p, c] (process_numbers flt [p, c] numbers w)) = cerr w
    \<and> files (notify_finished [p, c] (process_numbers flt [p, c] numbers w)) = files w"
proof -
  note pn = process_numbers_print_count [OF assms, of flt numbers]
  from pn have "heap (process_numbers flt [p, c] numbers w) p = PrintObserver"
    and "heap (process_numbers flt [p, c] numbers w) c =
        CountObserver (of_nat (length (filter (keep flt) numbers)))"
    by simp_all
  from finished_print_count [OF this \<open>p \<noteq> c\<close>] pn show ?thesis
    by (simp add: expected_output_def)
qed

section \<open>The two programs\<close>

lemma pipeline_filter_error:
  "pipeline rd (Inl e) filename w = (2, w\<lparr>cerr := cerr w @ [''Error: '' @ what e]\<rparr>)"
  by (simp add: pipeline_def)

text \<open>The if-chain program, source readable or not.\<close>

lemma pipeline_read_numbers:
  "fst (pipeline read_numbers (Inr flt) filename w) = 0
   \<and> cout (snd (pipeline read_numbers (Inr flt) filename w)) =
       cout w @ expected_output flt (case files w filename of None \<Rightarrow> [] | Some content \<Rightarrow> read_loop content)
   \<and> cerr (snd (pipeline read_numbers (Inr flt) filename w)) =
       cerr w @ (case files w filename of None \<Rightarrow> [''Error: Cannot open file '' @ filename] | Some content \<Rightarrow> [])
   \<and> files (snd (pipeline read_numbers (Inr flt) filename w)) = files w"
proof -
  define w1 where "w1 = w\<lparr>heap := (heap w)(printObserver := PrintObserver, countObserver := CountObserver 0)\<rparr>"
  define numbers where "numbers = (case files w filename of None \<Rightarrow> [] | Some content \<Rightarrow> read_loop content)"
  define w2 where "w2 = (case files w filename of None \<Rightarrow> w1\<lparr>cerr := cerr w1 @ [''Error: Cannot open file '' @ filename]\<rparr> | Some content \<Rightarrow> w1)"
  have rd: "read_numbers filename w1 = (Inr numbers, w2)"
    by (simp add: read_numbers_def numbers_def w2_def w1_def split: option.split)
  have heap: "heap w2 printObserver = PrintObserver" "heap w2 countObserver = CountObserver 0"
    "printObserver \<noteq> countObserver"
    by (simp_all add: w2_def w1_def printObserver_def countObserver_def split: option.split)
  have w2: "cout w2 = cout w" "files w2 = files w"
    "cerr w2 = cerr w @ (case files w filename of None \<Rightarrow> [''Error: Cannot open file '' @ filename] | Some content \<Rightarrow> [])"
    by (simp_all add: w2_def w1_def split: option.split)
  have "pipeline read_numbers (Inr flt) filename w =
      (0, notify_finished [printObserver, countObserver]
            (process_numbers flt [printObserver, countObserver] numbers w2))"
    by (simp add: pipeline_def Let_def w1_def [symmetric] run_def rd)
  with print_count_output [OF heap, of flt numbers] w2 show ?thesis
    by (simp add: numbers_def [symmetric])
qed

text \<open>The registry program on a readable source.\<close>

lemma pipeline_read_numbers_reg_some:
  assumes "files w filename = Some content"
  shows "fst (pipeline read_numbers_reg (Inr flt) filename w) = 0
   \<and> cout (snd (pipeline read_numbers_reg (Inr flt) filename w)) =
       cout w @ expected_output flt (read_loop content)
   \<and> cerr (snd (pipeline read_numbers_reg (Inr flt) filename w)) = cerr w
   \<and> files (snd (pipeline read_numbers_reg (Inr flt) filename w)) = files w"
proof -
  define w1 where "w1 = w\<lparr>heap := (heap w)(printObserver := PrintObserver, countObserver := CountObserver 0)\<rparr>"
  have rd: "read_numbers_reg filename w1 = (Inr (read_loop content), w1)"
    using assms by (simp add: read_numbers_reg_def w1_def)
  have heap: "heap w1 printObserver = PrintObserver" "heap w1 countObserver = CountObserver 0"
    "printObserver \<noteq> countObserver"
    by (simp_all add: w1_def printObserver_def countObserver_def)
  have w1: "cout w1 = cout w" "files w1 = files w" "cerr w1 = cerr w"
    by (simp_all add: w1_def)
  have "pipeline read_numbers_reg (Inr flt) filename w =
      (0, notify_finished [printObserver, countObserver]
            (process_numbers flt [printObserver, countObserver] (read_loop content) w1))"
    by (simp add: pipeline_def Let_def w1_def [symmetric] run_def rd)
  with print_count_output [OF heap, of flt "read_loop content"] w1 show ?thesis
    by simp
qed

text \<open>The registry program on an unreadable source.\<close>

lemma pipeline_read_numbers_reg_none:
  assumes "files w filename = None"
  shows "fst (pipeline read_numbers_reg (Inr flt) filename w) = 2
   \<and> cout (snd (pipeline read_numbers_reg (Inr flt) filename w)) = cout w
   \<and> cerr (snd (pipeline read_numbers_reg (Inr flt) filename w)) =
       cerr w @ [''Error: Cannot open file: '' @ filename]
   \<and> files (snd (pipeline read_numbers_reg (Inr flt) filename w)) = files w"
  using assms by (simp add: pipeline_def Let_def run_def read_numbers_reg_def)

lemma main_two_args:
  "main [tok, path] w = pipeline read_numbers (create_filter tok) path w"
  "main_reg [tok, path] w = pipeline read_numbers_reg (create_filter_reg tok) path w"
  by (simp_all add: main_def main_reg_def)

lemma read_loop_example: "read_loop ''3 4 5 6 7 8'' = [3, 4, 5, 6, 7, 8]"
  by (simp add: read_loop.simps extract_eval)

lemma read_loop_odd_example: "read_loop ''1 3 5'' = [1, 3, 5]"
  by (simp add: read_loop.simps extract_eval)

lemma expected_output_example:
  "expected_output EvenFilter [3, 4, 5, 6, 7, 8] =
     [''4'', ''6'', ''8'', ''Total numbers passed filter: 3'']"
  by (simp add: expected_output_def show_int_def show_nat.simps signed_modulo_int_def)

lemma expected_output_odd_example:
  "expected_output EvenFilter [1, 3, 5] = [''Total numbers passed filter: 0'']"
  by (simp add: expected_output_def show_int_def show_nat.simps signed_modulo_int_def)

lemma expected_output_nothing:
  "expected_output flt [] = [''Total numbers passed filter: 0'']"
  by (simp add: expected_output_def show_int_def show_nat.simps)

lemma create_filter_examples:
  "create_filter ''EVEN'' = Inr EvenFilter"
  "create_filter_reg ''EVEN'' = Inr EvenFilter"
  "create_filter ''GTabc'' = Inl (invalid_argument ''Invalid GT filter format'')"
  "create_filter_reg ''GTabc'' = Inl (invalid_argument ''Invalid GT filter format: GTabc'')"
  "create_filter ''XYZ'' = Inl (invalid_argument ''Unknown filter: XYZ'')"
  "create_filter_reg ''XYZ'' = Inl (invalid_argument ''Unknown filter: XYZ'')"
  by (simp_all add: create_filter_def create_filter_reg_eq gt_factory_def rfind0_def extract_eval)

lemma example_world_simps:
  "files example_world ''numbers.txt'' = Some ''3 4 5 6 7 8''"
  "files example_world ''odd.txt'' = Some ''1 3 5''"
  "files example_world ''mixed.txt'' = Some ''7 12abc 5''"
  "files example_world ''missing.txt'' = None"
  "cout example_world = []"
  "cerr example_world = []"
  "calls example_world = []"
  by (simp_all add: example_world_def)

text \<open>
  Claim C4. For every run of the processor over any input sequence that the reader
  returned, the empty one included, the run ends normally and its calls are some
  \<^verbatim>\<open>on_number\<close> calls followed by \<^verbatim>\<open>on_finished\<close> on every registered observer, in
  registration order, once per registration. When no value is kept these are the only
  calls.
\<close>

theorem run_finishes_every_observer_once:
  assumes "rd filename w = (Inr numbers, w1)"
  shows "\<exists>w2 pre.
      run rd flt observers filename w = (Inr (), w2)
      \<and> calls w2 = calls w1 @ pre @ map on_finished_call observers
      \<and> list_all is_number_call pre
      \<and> filter (\<lambda>c. \<not> is_number_call c) (pre @ map on_finished_call observers) =
          map on_finished_call observers
      \<and> (filter (keep flt) numbers = [] \<longrightarrow> pre = [])"
proof -
  define pre where "pre = concat (map (\<lambda>number. map (\<lambda>obs. on_number_call obs number) observers)
    (filter (keep flt) numbers))"
  have numbers_only: "list_all is_number_call pre"
    by (simp add: pre_def list_all_iff)
  then have "filter (\<lambda>c. \<not> is_number_call c) pre = []"
    by (simp add: list_all_iff)
  moreover have "filter (\<lambda>c. \<not> is_number_call c) (map on_finished_call observers) =
      map on_finished_call observers"
    by (induction observers) simp_all
  ultimately have finished: "filter (\<lambda>c. \<not> is_number_call c) (pre @ map on_finished_call observers) =
      map on_finished_call observers"
    by simp
  have "filter (keep flt) numbers = [] \<longrightarrow> pre = []"
    by (simp add: pre_def)
  with calls_run [where rd = rd and filename = filename and w = w and flt = flt
      and observers = observers, OF assms]
    numbers_only finished show ?thesis
    unfolding pre_def [symmetric] by blast
qed

theorem run_finishes_every_observer_once_witness:
  "read_numbers ''odd.txt'' example_world = (Inr [1, 3, 5], example_world)
   \<and> (\<exists>w2 pre.
      run read_numbers EvenFilter [printObserver, countObserver] ''odd.txt'' example_world = (Inr (), w2)
      \<and> calls w2 = calls example_world @ pre @ map on_finished_call [printObserver, countObserver]
      \<and> list_all is_number_call pre
      \<and> filter (\<lambda>c. \<not> is_number_call c) (pre @ map on_finished_call [printObserver, countObserver]) =
          map on_finished_call [printObserver, countObserver]
      \<and> pre = [])"
proof -
  have rd: "read_numbers ''odd.txt'' example_world = (Inr [1, 3, 5], example_world)"
    by (simp add: read_numbers_def example_world_simps read_loop_odd_example)
  have "filter (keep EvenFilter) [1, 3, 5] = []"
    by (simp add: signed_modulo_int_def)
  with run_finishes_every_observer_once [where rd = read_numbers and filename = "''odd.txt''"
      and w = example_world and flt = EvenFilter
      and observers = "[printObserver, countObserver]", OF rd] rd
  show ?thesis by blast
qed

text \<open>
  Claim C5. The processor visits the integers in arrival order and, for each kept
  value, calls \<^verbatim>\<open>on_number\<close> on every registered observer in registration order before
  it moves to the next integer; the \<^verbatim>\<open>on_finished\<close> calls follow. Hence, for a source
  holding \<^verbatim>\<open>3 4 5 6 7 8\<close> and the token \<^verbatim>\<open>EVEN\<close>, both programs exit with code 0 having
  printed exactly the lines 4, 6, 8 and \<^verbatim>\<open>Total numbers passed filter: 3\<close>.
\<close>

theorem processor_order:
  "(rd filename w = (Inr numbers, w1) \<longrightarrow>
      fst (run rd flt observers filename w) = Inr ()
      \<and> calls (snd (run rd flt observers filename w)) =
          calls w1
          @ concat (map (\<lambda>number. map (\<lambda>obs. on_number_call obs number) observers)
              (filter (keep flt) numbers))
          @ map on_finished_call observers)
   \<and> (files w path = Some ''3 4 5 6 7 8'' \<longrightarrow>
      fst (main [''EVEN'', path] w) = 0
      \<and> cout (snd (main [''EVEN'', path] w)) =
          cout w @ [''4'', ''6'', ''8'', ''Total numbers passed filter: 3'']
      \<and> fst (main_reg [''EVEN'', path] w) = 0
      \<and> cout (snd (main_reg [''EVEN'', path] w)) =
          cout w @ [''4'', ''6'', ''8'', ''Total numbers passed filter: 3''])"
proof (intro conjI impI)
  assume rd: "rd filename w = (Inr numbers, w1)"
  from calls_run [where rd = rd and filename = filename and w = w and flt = flt
      and observers = observers, OF rd]
  show "fst (run rd flt observers filename w) = Inr ()"
    and "calls (snd (run rd flt observers filename w)) =
          calls w1
          @ concat (map (\<lambda>number. map (\<lambda>obs. on_number_call obs number) observers)
              (filter (keep flt) numbers))
          @ map on_finished_call observers"
    by simp_all
next
  assume src: "files w path = Some ''3 4 5 6 7 8''"
  from pipeline_read_numbers [of EvenFilter path w] src
  show "fst (main [''EVEN'', path] w) = 0"
    and "cout (snd (main [''EVEN'', path] w)) =
          cout w @ [''4'', ''6'', ''8'', ''Total numbers passed filter: 3'']"
    by (simp_all add: main_two_args create_filter_examples read_loop_example expected_output_example)
  from pipeline_read_numbers_reg_some [OF src, of EvenFilter]
  show "fst (main_reg [''EVEN'', path] w) = 0"
    and "cout (snd (main_reg [''EVEN'', path] w)) =
          cout w @ [''4'', ''6'', ''8'', ''Total numbers passed filter: 3'']"
    by (simp_all add: main_two_args create_filter_examples read_loop_example expected_output_example)
qed

theorem processor_order_witness:
  "read_numbers ''numbers.txt'' example_world = (Inr [3, 4, 5, 6, 7, 8], example_world)
   \<and> calls (snd (run read_numbers EvenFilter [printObserver, countObserver] ''numbers.txt'' example_world)) =
       [on_number_call 0 4, on_number_call 1 4, on_number_call 0 6, on_number_call 1 6,
        on_number_call 0 8, on_number_call 1 8, on_finished_call 0, on_finished_call 1]
   \<and> files example_world ''numbers.txt'' = Some ''3 4 5 6 7 8''
   \<and> fst (main [''EVEN'', ''numbers.txt''] example_world) = 0
   \<and> cout (snd (main [''EVEN'', ''numbers.txt''] example_world)) =
       [''4'', ''6'', ''8'', ''Total numbers passed filter: 3'']"
proof -
  have rd: "read_numbers ''numbers.txt'' example_world = (Inr [3, 4, 5, 6, 7, 8], example_world)"
    by (simp add: read_numbers_def example_world_simps read_loop_example)
  have kept: "filter (keep EvenFilter) [3, 4, 5, 6, 7, 8] = [4, 6, 8]"
    by (simp add: signed_modulo_int_def)
  note order = processor_order [where rd = read_numbers and filename = "''numbers.txt''"
      and w = example_world and numbers = "[3, 4, 5, 6, 7, 8]" and ?w1.0 = example_world
      and flt = EvenFilter and observers = "[printObserver, countObserver]"
      and path = "''numbers.txt''"]
  from order rd kept
  have "calls (snd (run read_numbers EvenFilter [printObserver, countObserver] ''numbers.txt'' example_world)) =
       [on_number_call 0 4, on_number_call 1 4, on_number_call 0 6, on_number_call 1 6,
        on_number_call 0 8, on_number_call 1 8, on_finished_call 0, on_finished_call 1]"
    by (simp add: example_world_simps printObserver_def countObserver_def)
  moreover from order
  have "fst (main [''EVEN'', ''numbers.txt''] example_world) = 0
   \<and> cout (snd (main [''EVEN'', ''numbers.txt''] example_world)) =
       [''4'', ''6'', ''8'', ''Total numbers passed filter: 3'']"
    by (simp add: example_world_simps)
  ultimately show ?thesis
    using rd by (simp add: example_world_simps)
qed

text \<open>
  Claim C3, as stated, fails on \<^verbatim>\<open>number_pipeline.cpp\<close>: with a good token and a source
  that cannot be opened, the reader prints its diagnostic and returns no numbers, and the
  process prints the count summary and exits with code 0, not 2.
\<close>

theorem main_unreadable_source_counterexample:
  "create_filter ''EVEN'' = Inr EvenFilter
   \<and> files example_world ''missing.txt'' = None
   \<and> fst (main [''EVEN'', ''missing.txt''] example_world) = 0
   \<and> cout (snd (main [''EVEN'', ''missing.txt''] example_world)) =
       [''Total numbers passed filter: 0'']
   \<and> cerr (snd (main [''EVEN'', ''missing.txt''] example_world)) =
       [''Error: Cannot open file missing.txt'']"
  using pipeline_read_numbers [of EvenFilter "''missing.txt''" example_world]
  by (simp add: main_two_args create_filter_examples example_world_simps expected_output_nothing)

text \<open>
  Claim C3, amended. For every invocation with exactly two arguments:
  \<^item> in both programs a filter token that fails to parse gives exit code 2, the line
    \<^verbatim>\<open>Error: <message>\<close> on standard error and nothing on standard output;
  \<^item> in both programs, with a good token and a readable source, the exit code is 0 and
    the kept values and the count summary are printed, nothing on standard error;
  \<^item> with a good token and a source that cannot be opened, \<^verbatim>\<open>number_pipeline.cpp\<close> prints
    \<^verbatim>\<open>Error: Cannot open file <name>\<close> on standard error, the summary with count 0 on
    standard output, and exits with code 0; \<^verbatim>\<open>part_000\<close> prints
    \<^verbatim>\<open>Error: Cannot open file: <name>\<close> on standard error and exits with code 2.
\<close>

theorem main_exit_codes:
  "(create_filter tok = Inl e \<longrightarrow>
      fst (main [tok, path] w) = 2
      \<and> cerr (snd (main [tok, path] w)) = cerr w @ [''Error: '' @ what e]
      \<and> cout (snd (main [tok, path] w)) = cout w)
   \<and> (create_filter tok = Inr flt \<and> files w path = Some content \<longrightarrow>
      fst (main [tok, path] w) = 0
      \<and> cout (snd (main [tok, path] w)) = cout w @ expected_output flt (read_loop content)
      \<and> cerr (snd (main [tok, path] w)) = cerr w)
   \<and> (create_filter tok = Inr flt \<and> files w path = None \<longrightarrow>
      fst (main [tok, path] w) = 0
      \<and> cout (snd (main [tok, path] w)) = cout w @ [''Total numbers passed filter: 0'']
      \<and> cerr (snd (main [tok, path] w)) = cerr w @ [''Error: Cannot open file '' @ path])
   \<and> (create_filter_reg tok = Inl e \<longrightarrow>
      fst (main_reg [tok, path] w) = 2
      \<and> cerr (snd (main_reg [tok, path] w)) = cerr w @ [''Error: '' @ what e]
      \<and> cout (snd (main_reg [tok, path] w)) = cout w)
   \<and> (create_filter_reg tok = Inr flt \<and> files w path = Some content \<longrightarrow>
      fst (main_reg [tok, path] w) = 0
      \<and> cout (snd (main_reg [tok, path] w)) = cout w @ expected_output flt (read_loop content)
      \<and> cerr (snd (main_reg [tok, path] w)) = cerr w)
   \<and> (create_filter_reg tok = Inr flt \<and> files w path = None \<longrightarrow>
      fst (main_reg [tok, path] w) = 2
      \<and> cout (snd (main_reg [tok, path] w)) = cout w
      \<and> cerr (snd (main_reg [tok, path] w)) = cerr w @ [''Error: Cannot open file: '' @ path])"
proof -
  have a: "fst (main [tok, path] w) = 2
      \<and> cerr (snd (main [tok, path] w)) = cerr w @ [''Error: '' @ what e]
      \<and> cout (snd (main [tok, path] w)) = cout w"
    if "create_filter tok = Inl e"
    using that by (simp add: main_two_args pipeline_filter_error)
  have b: "fst (main [tok, path] w) = 0
      \<and> cout (snd (main [tok, path] w)) = cout w @ expected_output flt (read_loop content)
      \<and> cerr (snd (main [tok, path] w)) = cerr w"
    if "create_filter tok = Inr flt" "files w path = Some content"
    using that pipeline_read_numbers [of flt path w] by (simp add: main_two_args)
  have c: "fst (main [tok, path] w) = 0
      \<and> cout (snd (main [tok, path] w)) = cout w @ [''Total numbers passed filter: 0'']
      \<and> cerr (snd (main [tok, path] w)) = cerr w @ [''Error: Cannot open file '' @ path]"
    if "create_filter tok = Inr flt" "files w path = None"
    using that pipeline_read_numbers [of flt path w]
    by (simp add: main_two_args expected_output_nothing)
  have a': "fst (main_reg [tok, path] w) = 2
      \<and> cerr (snd (main_reg [tok, path] w)) = cerr w @ [''Error: '' @ what e]
      \<and> cout (snd (main_reg [tok, path] w)) = cout w"
    if "create_filter_reg tok = Inl e"
    using that by (simp add: main_two_args pipeline_filter_error)
  have b': "fst (main_reg [tok, path] w) = 0
      \<and> cout (snd (main_reg [tok, path] w)) = cout w @ expected_output flt (read_loop content)
      \<and> cerr (snd (main_reg [tok, path] w)) = cerr w"
    if "create_filter_reg tok = Inr flt" "files w path = Some content"
    using that pipeline_read_numbers_reg_some [of w path content flt] by (simp add: main_two_args)
  have c': "fst (main_reg [tok, path] w) = 2
      \<and> cout (snd (main_reg [tok, path] w)) = cout w
      \<and> cerr (snd (main_reg [tok, path] w)) = cerr w @ [''Error: Cannot open file: '' @ path]"
    if "create_filter_reg tok = Inr flt" "files w path = None"
    using that pipeline_read_numbers_reg_none [of w path flt] by (simp add: main_two_args)
  from a b c a' b' c' show ?thesis
    by blast
qed

theorem main_exit_codes_witness:
  "create_filter ''GTabc'' = Inl (invalid_argument ''Invalid GT filter format'')
   \<and> fst (main [''GTabc'', ''numbers.txt''] example_world) = 2
   \<and> cerr (snd (main [''GTabc'', ''numbers.txt''] example_world)) =
       [''Error: Invalid GT filter format'']
   \<and> create_filter_reg ''EVEN'' = Inr EvenFilter
   \<and> files example_world ''missing.txt'' = None
   \<and> fst (main_reg [''EVEN'', ''missing.txt''] example_world) = 2
   \<and> cerr (snd (main_reg [''EVEN'', ''missing.txt''] example_world)) =
       [''Error: Cannot open file: missing.txt'']
   \<and> files example_world ''numbers.txt'' = Some ''3 4 5 6 7 8''
   \<and> fst (main_reg [''EVEN'', ''numbers.txt''] example_world) = 0
   \<and> cout (snd (main_reg [''EVEN'', ''numbers.txt''] example_world)) =
       [''4'', ''6'', ''8'', ''Total numbers passed filter: 3'']"
proof -
  note bad_token = main_exit_codes [where tok = "''GTabc''" and path = "''numbers.txt''"
      and w = example_world and e = "invalid_argument ''Invalid GT filter format''"]
  note unreadable = main_exit_codes [where tok = "''EVEN''" and path = "''missing.txt''"
      and w = example_world and flt = EvenFilter]
  note readable = main_exit_codes [where tok = "''EVEN''" and path = "''numbers.txt''"
      and w = example_world and flt = EvenFilter and content = "''3 4 5 6 7 8''"]
  from bad_token have "fst (main [''GTabc'', ''numbers.txt''] example_world) = 2
   \<and> cerr (snd (main [''GTabc'', ''numbers.txt''] example_world)) =
       [''Error: Invalid GT filter format'']"
    by (simp add: create_filter_examples example_world_simps)
  moreover from unreadable have "fst (main_reg [''EVEN'', ''missing.txt''] example_world) = 2
   \<and> cerr (snd (main_reg [''EVEN'', ''missing.txt''] example_world)) =
       [''Error: Cannot open file: missing.txt'']"
    by (simp add: create_filter_examples example_world_simps)
  moreover from readable have "fst (main_reg [''EVEN'', ''numbers.txt''] example_world) = 0
   \<and> cout (snd (main_reg [''EVEN'', ''numbers.txt''] example_world)) =
       [''4'', ''6'', ''8'', ''Total numbers passed filter: 3'']"
    by (simp add: create_filter_examples example_world_simps read_loop_example
        expected_output_example)
  ultimately show ?thesis
    by (simp add: create_filter_examples example_world_simps)
qed

text \<open>
  Claim C9. The pipeline is deterministic: two runs of a program with the same filter
  token on sources with the same content end with the same exit code and append the
  same lines to standard output (the kept values in the same order and the same count
  summary) and to standard error, whatever else differs between the two worlds. A run
  does not change any file, so this holds for a second run after a first.
\<close>

theorem pipeline_deterministic:
  assumes "files w1 path = files w2 path"
  shows "(\<exists>code out err.
        fst (main [tok, path] w1) = code \<and> fst (main [tok, path] w2) = code
        \<and> cout (snd (main [tok, path] w1)) = cout w1 @ out
        \<and> cout (snd (main [tok, path] w2)) = cout w2 @ out
        \<and> cerr (snd (main [tok, path] w1)) = cerr w1 @ err
        \<and> cerr (snd (main [tok, path] w2)) = cerr w2 @ err)
    \<and> (\<exists>code out err.
        fst (main_reg [tok, path] w1) = code \<and> fst (main_reg [tok, path] w2) = code
        \<and> cout (snd (main_reg [tok, path] w1)) = cout w1 @ out
        \<and> cout (snd (main_reg [tok, path] w2)) = cout w2 @ out
        \<and> cerr (snd (main_reg [tok, path] w1)) = cerr w1 @ err
        \<and> cerr (snd (main_reg [tok, path] w2)) = cerr w2 @ err)
    \<and> files (snd (main [tok, path] w1)) = files w1
    \<and> files (snd (main_reg [tok, path] w1)) = files w1"
proof (intro conjI)
  show "\<exists>code out err.
        fst (main [tok, path] w1) = code \<and> fst (main [tok, path] w2) = code
        \<and> cout (snd (main [tok, path] w1)) = cout w1 @ out
        \<and> cout (snd (main [tok, path] w2)) = cout w2 @ out
        \<and> cerr (snd (main [tok, path] w1)) = cerr w1 @ err
        \<and> cerr (snd (main [tok, path] w2)) = cerr w2 @ err"
  proof (cases "create_filter tok")
    case (Inl e)
    then show ?thesis by (simp add: main_two_args pipeline_filter_error)
  next
    case (Inr flt)
    with pipeline_read_numbers [of flt path w1] pipeline_read_numbers [of flt path w2] assms
    show ?thesis by (simp add: main_two_args)
  qed
next
  show "\<exists>code out err.
        fst (main_reg [tok, path] w1) = code \<and> fst (main_reg [tok, path] w2) = code
        \<and> cout (snd (main_reg [tok, path] w1)) = cout w1 @ out
        \<and> cout (snd (main_reg [tok, path] w2)) = cout w2 @ out
        \<and> cerr (snd (main_reg [tok, path] w1)) = cerr w1 @ err
        \<and> cerr (snd (main_reg [tok, path] w2)) = cerr w2 @ err"
  proof (cases "create_filter_reg tok")
    case (Inl e)
    then show ?thesis by (simp add: main_two_args pipeline_filter_error)
  next
    case (Inr flt)
    show ?thesis
    proof (cases "files w1 path")
      case None
      with assms have "files w2 path = None" by simp
      from pipeline_read_numbers_reg_none [OF None, of flt]
        pipeline_read_numbers_reg_none [OF this, of flt] Inr
      show ?thesis by (simp add: main_two_args)
    next
      case (Some content)
      with assms have "files w2 path = Some content" by simp
      from pipeline_read_numbers_reg_some [OF Some, of flt]
        pipeline_read_numbers_reg_some [OF this, of flt] Inr
      show ?thesis by (simp add: main_two_args)
    qed
  qed
next
  show "files (snd (main [tok, path] w1)) = files w1"
  proof (cases "create_filter tok")
    case (Inl e)
    then show ?thesis by (simp add: main_two_args pipeline_filter_error)
  next
    case (Inr flt)
    with pipeline_read_numbers [of flt path w1] show ?thesis by (simp add: main_two_args)
  qed
next
  show "files (snd (main_reg [tok, path] w1)) = files w1"
  proof (cases "create_filter_reg tok")
    case (Inl e)
    then show ?thesis by (simp add: main_two_args pipeline_filter_error)
  next
    case (Inr flt)
    show ?thesis
    proof (cases "files w1 path")
      case None
      from pipeline_read_numbers_reg_none [OF None, of flt] Inr
      show ?thesis by (simp add: main_two_args)
    next
      case (Some content)
      from pipeline_read_numbers_reg_some [OF Some, of flt] Inr
      show ?thesis by (simp add: main_two_args)
    qed
  qed
qed

theorem pipeline_deterministic_witness:
  "files example_world ''numbers.txt'' = files other_world ''numbers.txt''
   \<and> (\<exists>code out err.
        fst (main [''EVEN'', ''numbers.txt''] example_world) = code
        \<and> fst (main [''EVEN'', ''numbers.txt''] other_world) = code
        \<and> cout (snd (main [''EVEN'', ''numbers.txt''] example_world)) = cout example_world @ out
        \<and> cout (snd (main [''EVEN'', ''numbers.txt''] other_world)) = cout other_world @ out
        \<and> cerr (snd (main [''EVEN'', ''numbers.txt''] example_world)) = cerr example_world @ err
        \<and> cerr (snd (main [''EVEN'', ''numbers.txt''] other_world)) = cerr other_world @ err)"
proof -
  have same: "files example_world ''numbers.txt'' = files other_world ''numbers.txt''"
    by (simp add: example_world_def other_world_def)
  from pipeline_deterministic [OF same, of "''EVEN''"] same show ?thesis
    by blast
qed

section \<open>Formatted extraction against the grammar\<close>

lemma isdigit_not_sign: "isdigit c \<Longrightarrow> c \<noteq> CHR ''-'' \<and> c \<noteq> CHR ''+''"
  by (auto simp: isdigit_def)

lemma isdigit_not_isspace: "isdigit c \<Longrightarrow> \<not> isspace c"
  by (auto simp: isdigit_def isspace_def)

lemma sign_not_isspace: "\<not> isspace CHR ''-''" "\<not> isspace CHR ''+''"
  by (simp_all add: isspace_def)

lemma digits_then_rest:
  assumes "list_all isdigit ds" and "takeWhile isdigit rest = []"
  shows "takeWhile isdigit (ds @ rest) = ds" and "dropWhile isdigit (ds @ rest) = rest"
proof -
  from assms(1) have all: "\<And>x. x \<in> set ds \<Longrightarrow> isdigit x"
    by (simp add: list_all_iff)
  from assms(2) have "dropWhile isdigit rest = rest"
    by (metis append_Nil takeWhile_dropWhile_id)
  with all assms(2) show "takeWhile isdigit (ds @ rest) = ds"
    and "dropWhile isdigit (ds @ rest) = rest"
    by simp_all
qed

lemma takeWhile_after_dropWhile: "takeWhile P (dropWhile P xs) = []"
  by (induction xs) simp_all

lemma spec_decimal_Some:
  "(spec_decimal ds = Some v) = (ds \<noteq> [] \<and> list_all isdigit ds \<and> v = decimal ds)"
  by (auto simp: spec_decimal_def)

lemma spec_signed_decimal_head:
  assumes "spec_signed_decimal lit = Some v"
  shows "lit \<noteq> []" and "\<not> isspace (hd lit)"
proof -
  from assms show "lit \<noteq> []" by auto
  then obtain c cs where lit: "lit = c # cs" by (cases lit) auto
  show "\<not> isspace (hd lit)"
  proof (cases "c = CHR ''-'' \<or> c = CHR ''+''")
    case True
    then show ?thesis using lit sign_not_isspace by auto
  next
    case False
    with assms lit have "isdigit c" by (simp add: spec_decimal_Some)
    then show ?thesis using lit by (simp add: isdigit_not_isspace)
  qed
qed

lemma num_get_literal:
  assumes "spec_signed_decimal lit = Some v" and "takeWhile isdigit rest = []"
  shows "num_get (lit @ rest) = Some (v, rest)"
proof -
  from assms(1) obtain c cs where lit: "lit = c # cs" by (cases lit) auto
  consider (minus) "c = CHR ''-''" | (plus) "c = CHR ''+''" | (digit) "c \<noteq> CHR ''-''" "c \<noteq> CHR ''+''"
    by blast
  then show ?thesis
  proof cases
    case minus
    with assms(1) lit have cs: "cs \<noteq> []" "list_all isdigit cs" "v = - decimal cs"
      by (auto simp: spec_decimal_Some)
    with digits_then_rest [OF cs(2) assms(2)] show ?thesis
      by (simp add: num_get_def lit minus)
  next
    case plus
    with assms(1) lit have cs: "cs \<noteq> []" "list_all isdigit cs" "v = decimal cs"
      by (auto simp: spec_decimal_Some)
    with digits_then_rest [OF cs(2) assms(2)] show ?thesis
      by (simp add: num_get_def lit plus)
  next
    case digit
    with assms(1) lit have cs: "list_all isdigit (c # cs)" "v = decimal (c # cs)"
      by (auto simp: spec_decimal_Some)
    with digits_then_rest [OF cs(1) assms(2)] show ?thesis
      using digit by (simp add: num_get_def lit)
  qed
qed

lemma num_get_Some:
  assumes "num_get s = Some (v, rest)"
  shows "\<exists>lit. s = lit @ rest \<and> spec_signed_decimal lit = Some v \<and> takeWhile isdigit rest = []"
proof -
  obtain neg body where gs: "get_sign s = (neg, body)"
    by (cases "get_sign s")
  define ds where "ds = takeWhile isdigit body"
  from assms gs have ds: "ds \<noteq> []" and rest: "rest = dropWhile isdigit body"
    and v: "v = (if neg then - decimal ds else decimal ds)"
    by (auto simp: num_get_def ds_def Let_def split: if_splits)
  have body: "body = ds @ rest"
    by (simp add: ds_def rest)
  have all: "list_all isdigit ds"
    by (auto simp: ds_def list_all_iff dest: set_takeWhileD)
  have stop: "takeWhile isdigit rest = []"
    by (simp add: rest takeWhile_after_dropWhile)
  from ds obtain d ds' where dd: "ds = d # ds'" by (cases ds) auto
  with all have d: "d \<noteq> CHR ''-''" "d \<noteq> CHR ''+''"
    using isdigit_not_sign [of d] by simp_all
  have sd: "spec_decimal ds = Some (decimal ds)"
    using ds all by (simp add: spec_decimal_Some)
  show ?thesis
  proof (cases s)
    case Nil
    with gs body ds show ?thesis by simp
  next
    case (Cons c cs)
    consider (minus) "c = CHR ''-''" | (plus) "c = CHR ''+''" | (digit) "c \<noteq> CHR ''-''" "c \<noteq> CHR ''+''"
      by blast
    then show ?thesis
    proof cases
      case minus
      with gs Cons have "neg" "body = cs" by simp_all
      with Cons minus body v sd have "s = (CHR ''-'' # ds) @ rest"
        and "spec_signed_decimal (CHR ''-'' # ds) = Some v"
        by simp_all
      with stop show ?thesis by blast
    next
      case plus
      with gs Cons have "\<not> neg" "body = cs" by simp_all
      with Cons plus body v sd have "s = (CHR ''+'' # ds) @ rest"
        and "spec_signed_decimal (CHR ''+'' # ds) = Some v"
        by simp_all
      with stop show ?thesis by blast
    next
      case digit
      with gs Cons have "\<not> neg" "body = s" by simp_all
      with body v sd dd d have "s = ds @ rest" and "spec_signed_decimal ds = Some v"
        by simp_all
      with stop show ?thesis by blast
    qed
  qed
qed


lemma extract_int_Some:
  "(extract_int s = Some (t, rest)) =
     (\<exists>ws lit v. s = ws @ lit @ rest \<and> list_all isspace ws \<and> spec_signed_decimal lit = Some v
        \<and> takeWhile isdigit rest = [] \<and> - (2 ^ 31) \<le> v \<and> v \<le> 2 ^ 31 - 1 \<and> t = word_of_int v)"
proof
  assume ex: "extract_int s = Some (t, rest)"
  then obtain v where ng: "num_get (dropWhile isspace s) = Some (v, rest)"
    and range: "- (2 ^ 31) \<le> v" "v \<le> 2 ^ 31 - 1" and t: "t = word_of_int v"
    by (auto simp: extract_int_def split: option.splits if_splits)
  from num_get_Some [OF ng] obtain lit where lit: "dropWhile isspace s = lit @ rest"
    "spec_signed_decimal lit = Some v" "takeWhile isdigit rest = []"
    by blast
  have "s = takeWhile isspace s @ lit @ rest"
    using lit(1) by (metis takeWhile_dropWhile_id)
  moreover have "list_all isspace (takeWhile isspace s)"
    by (auto simp: list_all_iff dest: set_takeWhileD)
  ultimately show "\<exists>ws lit v. s = ws @ lit @ rest \<and> list_all isspace ws \<and> spec_signed_decimal lit = Some v
        \<and> takeWhile isdigit rest = [] \<and> - (2 ^ 31) \<le> v \<and> v \<le> 2 ^ 31 - 1 \<and> t = word_of_int v"
    using lit range t by blast
next
  assume "\<exists>ws lit v. s = ws @ lit @ rest \<and> list_all isspace ws \<and> spec_signed_decimal lit = Some v
        \<and> takeWhile isdigit rest = [] \<and> - (2 ^ 31) \<le> v \<and> v \<le> 2 ^ 31 - 1 \<and> t = word_of_int v"
  then obtain ws lit v where s: "s = ws @ lit @ rest" and ws: "list_all isspace ws"
    and lit: "spec_signed_decimal lit = Some v" and stop: "takeWhile isdigit rest = []"
    and range: "- (2 ^ 31) \<le> v" "v \<le> 2 ^ 31 - 1" and t: "t = word_of_int v"
    by blast
  from spec_signed_decimal_head [OF lit] obtain c cs where c: "lit = c # cs" "\<not> isspace c"
    by (cases lit) auto
  from ws have "\<And>x. x \<in> set ws \<Longrightarrow> isspace x"
    by (simp add: list_all_iff)
  then have "dropWhile isspace s = lit @ rest"
    using c by (simp add: s)
  with num_get_literal [OF lit stop] range t show "extract_int s = Some (t, rest)"
    by (simp add: extract_int_def)
qed






lemma while_before_stop:
  assumes "r = [] \<or> \<not> P (hd r)"
  shows "takeWhile P (xs @ r) = takeWhile P xs" and "dropWhile P (xs @ r) = dropWhile P xs @ r"
  using assms by (induction xs) (auto simp: takeWhile_eq_Nil_iff dropWhile_eq_self_iff)

lemma num_get_before_space:
  assumes "t \<noteq> []" and "r = [] \<or> isspace (hd r)"
  shows "num_get (t @ r) = map_option (\<lambda>(v, rest). (v, rest @ r)) (num_get t)"
proof -
  obtain neg body where gs: "get_sign t = (neg, body)"
    by (cases "get_sign t")
  with assms(1) have gs': "get_sign (t @ r) = (neg, body @ r)"
    by (cases t) (auto split: if_splits)
  from assms(2) have "r = [] \<or> \<not> isdigit (hd r)"
    using isdigit_not_isspace by blast
  from while_before_stop [where P = isdigit and r = r and xs = body, OF this] show ?thesis
    by (simp add: num_get_def gs gs' Let_def)
qed

lemma extract_int_token:
  assumes "list_all isspace ws" and "t \<noteq> []" and "\<not> isspace (hd t)" and "r = [] \<or> isspace (hd r)"
  shows "extract_int (ws @ t @ r) = map_option (\<lambda>(v, rest). (v, rest @ r)) (extract_int t)"
proof -
  from assms(1) have "\<And>x. x \<in> set ws \<Longrightarrow> isspace x"
    by (simp add: list_all_iff)
  with assms(2,3) have skip: "dropWhile isspace (ws @ t @ r) = t @ r"
    by (cases t) simp_all
  from assms(2,3) have self: "dropWhile isspace t = t"
    by (cases t) simp_all
  show ?thesis
    unfolding extract_int_def skip self num_get_before_space [OF assms(2,4)]
    by (cases "num_get t") auto
qed

lemma int_token_extract:
  assumes "int_token t = Some v"
  shows "extract_int t = Some (v, [])"
proof -
  from assms obtain k where "spec_signed_decimal t = Some k" "- (2 ^ 31) \<le> k" "k \<le> 2 ^ 31 - 1"
    "v = word_of_int k"
    by (auto simp: int_token_def split: option.splits if_splits)
  then have "\<exists>ws lit k. t = ws @ lit @ [] \<and> list_all isspace ws \<and> spec_signed_decimal lit = Some k
        \<and> takeWhile isdigit [] = [] \<and> - (2 ^ 31) \<le> k \<and> k \<le> 2 ^ 31 - 1 \<and> v = word_of_int k"
    by (intro exI [of _ "[]"] exI [of _ t] exI [of _ k]) simp
  then show ?thesis
    unfolding extract_int_Some .
qed

section \<open>The factories\<close>




text \<open>
  Claim C2 at its failing input. In \<^verbatim>\<open>number_pipeline.cpp\<close> the error for a \<^verbatim>\<open>GT\<close> token whose
  remainder is no integer has the fixed message \<^verbatim>\<open>Invalid GT filter format\<close>, whatever the
  token, so for \<^verbatim>\<open>GTabc\<close> it does not carry the token. The unknown-filter error of the same
  function carries it, and so do both errors of \<^verbatim>\<open>part_000\<close>. The kinds are as claimed:
  \<^verbatim>\<open>GTabc\<close> is an invalid argument and \<^verbatim>\<open>XYZ\<close> an unknown filter, in both factories.
\<close>

theorem create_filter_error_messages:
  "(create_filter token = Inl e \<and> rfind0 token ''GT'' \<longrightarrow>
      e = invalid_argument ''Invalid GT filter format'')
   \<and> (create_filter token = Inl e \<and> \<not> rfind0 token ''GT'' \<longrightarrow>
      e = invalid_argument (''Unknown filter: '' @ token) \<and> carries (what e) token)
   \<and> (create_filter_reg token = Inl e \<longrightarrow> carries (what e) token)
   \<and> create_filter ''GTabc'' = Inl (invalid_argument ''Invalid GT filter format'')
   \<and> \<not> carries ''Invalid GT filter format'' ''GTabc''
   \<and> create_filter_reg ''GTabc'' = Inl (invalid_argument ''Invalid GT filter format: GTabc'')
   \<and> kind_of_error (invalid_argument ''Invalid GT filter format'') = invalid_filter_argument
   \<and> kind_of_error (invalid_argument ''Invalid GT filter format: GTabc'') = invalid_filter_argument
   \<and> create_filter ''XYZ'' = Inl (invalid_argument ''Unknown filter: XYZ'')
   \<and> create_filter_reg ''XYZ'' = Inl (invalid_argument ''Unknown filter: XYZ'')
   \<and> kind_of_error (invalid_argument ''Unknown filter: XYZ'') = unknown_filter"
proof -
  have carries_suffix: "carries (pre @ tok) tok" for pre tok
  proof (induction pre)
    case Nil
    show ?case by (cases tok) (simp_all add: rfind0_def)
  next
    case (Cons c pre)
    then show ?case by simp
  qed
  have gt: "e = invalid_argument ''Invalid GT filter format''"
    if "create_filter token = Inl e" "rfind0 token ''GT''"
    using that by (auto simp: create_filter_def split: if_splits option.splits)
  have unknown: "e = invalid_argument (''Unknown filter: '' @ token) \<and> carries (what e) token"
    if "create_filter token = Inl e" "\<not> rfind0 token ''GT''"
  proof -
    from that have "e = invalid_argument (''Unknown filter: '' @ token)"
      by (auto simp: create_filter_def split: if_splits)
    then show ?thesis
      by (simp only: what.simps carries_suffix simp_thms)
  qed
  have reg: "carries (what e) token" if "create_filter_reg token = Inl e"
  proof -
    from that have "e = invalid_argument (''Unknown filter: '' @ token)
        \<or> e = invalid_argument (''Invalid GT filter format: '' @ token)"
      by (auto simp: create_filter_reg_eq gt_factory_def split: if_splits option.splits)
    then show ?thesis
      by (elim disjE) (simp_all only: what.simps carries_suffix)
  qed
  have "\<not> carries ''Invalid GT filter format'' ''GTabc''"
    by (simp add: rfind0_def)
  moreover have "kind_of_error (invalid_argument ''Invalid GT filter format'') = invalid_filter_argument"
    "kind_of_error (invalid_argument ''Invalid GT filter format: GTabc'') = invalid_filter_argument"
    "kind_of_error (invalid_argument ''Unknown filter: XYZ'') = unknown_filter"
    by (simp_all add: rfind0_def)
  ultimately show ?thesis
    using gt unknown reg by (simp only: create_filter_examples simp_thms) blast
qed

theorem create_filter_error_messages_witness:
  "create_filter ''GT+'' = Inl (invalid_argument ''Invalid GT filter format'')
   \<and> rfind0 ''GT+'' ''GT''
   \<and> create_filter ''even'' = Inl (invalid_argument ''Unknown filter: even'')
   \<and> carries ''Unknown filter: even'' ''even''
   \<and> create_filter_reg ''GT+'' = Inl (invalid_argument ''Invalid GT filter format: GT+'')
   \<and> carries ''Invalid GT filter format: GT+'' ''GT+''"
proof -
  have a: "create_filter ''GT+'' = Inl (invalid_argument ''Invalid GT filter format'')"
    and b: "rfind0 ''GT+'' ''GT''"
    and c: "create_filter ''even'' = Inl (invalid_argument ''Unknown filter: even'')"
    and d: "\<not> rfind0 ''even'' ''GT''"
    and e: "create_filter_reg ''GT+'' = Inl (invalid_argument ''Invalid GT filter format: GT+'')"
    by (simp_all add: create_filter_def create_filter_reg_eq gt_factory_def rfind0_def extract_eval)
  from create_filter_error_messages [of "''even''" "invalid_argument ''Unknown filter: even''"] c d
  have "carries ''Unknown filter: even'' ''even''"
    by simp
  moreover
  from create_filter_error_messages [of "''GT+''" "invalid_argument ''Invalid GT filter format: GT+''"] e
  have "carries ''Invalid GT filter format: GT+'' ''GT+''"
    by simp
  ultimately show ?thesis
    using a b c e by simp
qed




section \<open>The reader\<close>

text \<open>One step of splitting a text at its first token.\<close>

lemma first_token_split:
  assumes "dropWhile isspace s = c # cs"
  defines "t \<equiv> c # takeWhile (\<lambda>x. \<not> isspace x) cs"
    and "r \<equiv> dropWhile (\<lambda>x. \<not> isspace x) cs"
  shows "tokens s = t # tokens r"
    and "extract_int s = map_option (\<lambda>(v, rest). (v, rest @ r)) (extract_int t)"
    and "\<not> isspace c"
    and "list_all (\<lambda>x. \<not> isspace x) t"
proof -
  show toks: "tokens s = t # tokens r"
    by (simp add: tokens.simps [of s] assms)
  have s: "s = takeWhile isspace s @ t @ r"
    using assms(1) by (metis append_Cons r_def t_def takeWhile_dropWhile_id)
  have ws: "list_all isspace (takeWhile isspace s)"
    by (auto simp: list_all_iff dest: set_takeWhileD)
  show c: "\<not> isspace c"
    using hd_dropWhile [of isspace s] assms(1) by simp
  then have hd: "\<not> isspace (hd t)"
    by (simp add: t_def)
  have r: "r = [] \<or> isspace (hd r)"
    using hd_dropWhile [of "\<lambda>x. \<not> isspace x" cs] by (auto simp: r_def)
  have t: "t \<noteq> []"
    by (simp add: t_def)
  show "extract_int s = map_option (\<lambda>(v, rest). (v, rest @ r)) (extract_int t)"
    using extract_int_token [OF ws t hd r] s by simp
  show "list_all (\<lambda>x. \<not> isspace x) t"
    using c by (auto simp: t_def list_all_iff dest: set_takeWhileD)
qed

lemma read_loop_exact:
  "read_loop s =
     integer_prefix (tokens s)
     @ (case rejected_token s of
          None \<Rightarrow> []
        | Some (t, after) \<Rightarrow>
            (case extract_int t of
               None \<Rightarrow> []
             | Some (v, rest) \<Rightarrow> v # read_loop (rest @ after)))"
proof (induction s rule: tokens.induct)
  case (1 s)
  show ?case
  proof (cases "dropWhile isspace s")
    case Nil
    have "extract_int s = None"
      unfolding extract_int_def Nil by (simp add: num_get_def)
    moreover have "tokens s = []"
      unfolding tokens.simps [of s] Nil by simp
    moreover have "rejected_token s = None"
      unfolding rejected_token.simps [of s] Nil by simp
    ultimately show ?thesis
      by (simp add: read_loop.simps [of s])
  next
    case (Cons c cs)
    define t where "t = c # takeWhile (\<lambda>x. \<not> isspace x) cs"
    define r where "r = dropWhile (\<lambda>x. \<not> isspace x) cs"
    note split = first_token_split [OF Cons, folded t_def r_def]
    show ?thesis
    proof (cases "int_token t")
      case None
      then have "rejected_token s = Some (t, r)"
        by (simp add: rejected_token.simps [of s] Cons t_def r_def)
      with None split(1,2) show ?thesis
        by (cases "extract_int t") (auto simp: read_loop.simps [of s])
    next
      case (Some v)
      then have "rejected_token s = rejected_token r"
        by (simp add: rejected_token.simps [of s] Cons t_def r_def)
      moreover from split(2) int_token_extract [OF Some] have "read_loop s = v # read_loop r"
        by (simp add: read_loop.simps [of s])
      moreover note "1.IH" [OF Cons, folded r_def]
      ultimately show ?thesis
        using Some split(1) by simp
    qed
  qed
qed

text \<open>What the rejected token is: the first token that does not parse as an integer,
  with the text after it.\<close>

lemma rejected_token_tokens:
  "case rejected_token s of
     None \<Rightarrow> list_all (\<lambda>x. int_token x \<noteq> None) (tokens s)
   | Some (t, after) \<Rightarrow>
       int_token t = None \<and> t \<noteq> [] \<and> list_all (\<lambda>x. \<not> isspace x) t
       \<and> (\<exists>pre. tokens s = pre @ t # tokens after \<and> list_all (\<lambda>x. int_token x \<noteq> None) pre)"
proof (induction s rule: tokens.induct)
  case (1 s)
  show ?case
  proof (cases "dropWhile isspace s")
    case Nil
    have "tokens s = []"
      unfolding tokens.simps [of s] Nil by simp
    moreover have "rejected_token s = None"
      unfolding rejected_token.simps [of s] Nil by simp
    ultimately show ?thesis by simp
  next
    case (Cons c cs)
    define t where "t = c # takeWhile (\<lambda>x. \<not> isspace x) cs"
    define r where "r = dropWhile (\<lambda>x. \<not> isspace x) cs"
    note split = first_token_split [OF Cons, folded t_def r_def]
    show ?thesis
    proof (cases "int_token t")
      case None
      then have "rejected_token s = Some (t, r)"
        by (simp add: rejected_token.simps [of s] Cons t_def r_def)
      moreover have "tokens s = [] @ t # tokens r \<and> list_all (\<lambda>x. int_token x \<noteq> None) []"
        using split(1) by simp
      then have "\<exists>pre. tokens s = pre @ t # tokens r \<and> list_all (\<lambda>x. int_token x \<noteq> None) pre"
        by (rule exI)
      moreover have "t \<noteq> []"
        by (simp add: t_def)
      ultimately show ?thesis
        using None split(4) by simp
    next
      case (Some v)
      then have rej: "rejected_token s = rejected_token r"
        by (simp add: rejected_token.simps [of s] Cons t_def r_def)
      note ih = "1.IH" [OF Cons, folded r_def]
      show ?thesis
      proof (cases "rejected_token r")
        case None
        with ih rej Some split(1) show ?thesis by simp
      next
        case (Some a)
        obtain t' after where a: "a = (t', after)" by (cases a)
        with ih Some obtain pre where pre: "int_token t' = None" "t' \<noteq> []"
          "list_all (\<lambda>x. \<not> isspace x) t'"
          "tokens r = pre @ t' # tokens after" "list_all (\<lambda>x. int_token x \<noteq> None) pre"
          by auto
        from pre(4) split(1) have "tokens s = (t # pre) @ t' # tokens after"
          by simp
        moreover have "list_all (\<lambda>x. int_token x \<noteq> None) (t # pre)"
          using \<open>int_token t = Some v\<close> pre(5) by simp
        ultimately have "\<exists>pre. tokens s = pre @ t' # tokens after \<and> list_all (\<lambda>x. int_token x \<noteq> None) pre"
          by blast
        with pre rej Some a show ?thesis by simp
      qed
    qed
  qed
qed

text \<open>When the extraction succeeds on a rejected token, it has read the integer the
  token begins with, and something of the token is left.\<close>

lemma extract_leading_integer:
  assumes "int_token t = None" and "list_all (\<lambda>x. \<not> isspace x) t"
    and "extract_int t = Some (v, rest)"
  shows "\<exists>lit. t = lit @ rest \<and> int_token lit = Some v \<and> rest \<noteq> [] \<and> takeWhile isdigit rest = []"
proof -
  from assms(3) obtain ws lit k where t: "t = ws @ lit @ rest" and ws: "list_all isspace ws"
    and lit: "spec_signed_decimal lit = Some k" and stop: "takeWhile isdigit rest = []"
    and range: "- (2 ^ 31) \<le> k" "k \<le> 2 ^ 31 - 1" and v: "v = word_of_int k"
    unfolding extract_int_Some by blast
  have "ws = []"
  proof (rule ccontr)
    assume "ws \<noteq> []"
    then obtain x xs where "ws = x # xs" by (cases ws) auto
    with ws t assms(2) show False by simp
  qed
  with t have t': "t = lit @ rest" by simp
  have il: "int_token lit = Some v"
    using lit range v by (simp add: int_token_def)
  have "rest \<noteq> []"
  proof
    assume "rest = []"
    with t' il assms(1) show False by simp
  qed
  with t' il stop show ?thesis by blast
qed

text \<open>
  Claim C8, as stated, fails: in \<^verbatim>\<open>7 12abc 5\<close> the tokens are \<^verbatim>\<open>7\<close>, \<^verbatim>\<open>12abc\<close> and \<^verbatim>\<open>5\<close>, and
  the maximal prefix of tokens that parse as integers is \<^verbatim>\<open>7\<close> alone; the reader returns 7
  and 12, since the extraction takes the digits of \<^verbatim>\<open>12abc\<close> and fails only on \<^verbatim>\<open>abc\<close>.
\<close>

theorem read_numbers_prefix_counterexample:
  "files example_world ''mixed.txt'' = Some ''7 12abc 5''
   \<and> tokens ''7 12abc 5'' = [''7'', ''12abc'', ''5'']
   \<and> spec_read_numbers ''7 12abc 5'' = [7]
   \<and> read_numbers ''mixed.txt'' example_world = (Inr [7, 12], example_world)
   \<and> read_numbers_reg ''mixed.txt'' example_world = (Inr [7, 12], example_world)"
proof -
  have toks: "tokens ''7 12abc 5'' = [''7'', ''12abc'', ''5'']"
    by (simp add: tokens.simps isspace_def)
  have "spec_read_numbers ''7 12abc 5'' = [7]"
    unfolding spec_read_numbers_def toks
    by (simp add: int_token_def spec_decimal_def isdigit_def decimal_def digit_val_def)
  moreover have "read_loop ''7 12abc 5'' = [7, 12]"
    by (simp add: read_loop.simps extract_eval)
  ultimately show ?thesis
    using toks by (simp add: read_numbers_def read_numbers_reg_def example_world_simps)
qed

text \<open>
  Claim C8, amended. For every openable source, both versions of \<^verbatim>\<open>read_numbers\<close> raise no
  error and print no diagnostic, whatever follows the numbers. They return, in file
  order, the values of the maximal prefix of white-space separated tokens that parse as
  integers; that is the whole result when every token parses, and when the extraction
  fails on the first token that does not parse (it does not begin with an integer that
  fits an \<^verbatim>\<open>int\<close>). Otherwise the integer that this token begins with is read too, and
  reading goes on in the same way from what is left of the token and the text after it.
\<close>

theorem read_numbers_token_prefix:
  assumes "files w filename = Some content"
  shows "read_numbers_reg filename w = read_numbers filename w
    \<and> (rejected_token content = None \<longrightarrow>
          read_numbers filename w = (Inr (spec_read_numbers content), w))
    \<and> (rejected_token content = Some (t, after) \<and> extract_int t = None \<longrightarrow>
          read_numbers filename w = (Inr (spec_read_numbers content), w))
    \<and> (rejected_token content = Some (t, after) \<and> extract_int t = Some (v, rest) \<longrightarrow>
          read_numbers filename w =
            (Inr (spec_read_numbers content @ v # read_loop (rest @ after)), w)
          \<and> (\<exists>lit. t = lit @ rest \<and> int_token lit = Some v \<and> rest \<noteq> []
                \<and> takeWhile isdigit rest = []))
    \<and> (case rejected_token content of
          None \<Rightarrow> list_all (\<lambda>x. int_token x \<noteq> None) (tokens content)
        | Some (t', after') \<Rightarrow>
            int_token t' = None
            \<and> (\<exists>pre. tokens content = pre @ t' # tokens after'
                  \<and> list_all (\<lambda>x. int_token x \<noteq> None) pre))"
proof -
  have rd: "read_numbers filename w = (Inr (read_loop content), w)"
    and same: "read_numbers_reg filename w = read_numbers filename w"
    using assms by (simp_all add: read_numbers_def read_numbers_reg_def)
  note exact = read_loop_exact [of content]
  note rej = rejected_token_tokens [of content]
  have none: "read_numbers filename w = (Inr (spec_read_numbers content), w)"
    if "rejected_token content = None"
    using that exact by (simp add: rd spec_read_numbers_def)
  have fails: "read_numbers filename w = (Inr (spec_read_numbers content), w)"
    if "rejected_token content = Some (t, after)" "extract_int t = None"
    using that exact by (simp add: rd spec_read_numbers_def)
  have more: "read_numbers filename w =
            (Inr (spec_read_numbers content @ v # read_loop (rest @ after)), w)
          \<and> (\<exists>lit. t = lit @ rest \<and> int_token lit = Some v \<and> rest \<noteq> []
                \<and> takeWhile isdigit rest = [])"
    if r: "rejected_token content = Some (t, after)" and e: "extract_int t = Some (v, rest)"
  proof -
    from r rej have "int_token t = None" "list_all (\<lambda>x. \<not> isspace x) t"
      by simp_all
    from extract_leading_integer [OF this e] r e exact show ?thesis
      by (simp add: rd spec_read_numbers_def)
  qed
  have shape: "case rejected_token content of
          None \<Rightarrow> list_all (\<lambda>x. int_token x \<noteq> None) (tokens content)
        | Some (t', after') \<Rightarrow>
            int_token t' = None
            \<and> (\<exists>pre. tokens content = pre @ t' # tokens after'
                  \<and> list_all (\<lambda>x. int_token x \<noteq> None) pre)"
    using rej by (cases "rejected_token content") auto
  from same none fails more shape show ?thesis
    by blast
qed

theorem read_numbers_token_prefix_witness:
  "files example_world ''mixed.txt'' = Some ''7 12abc 5''
   \<and> rejected_token ''7 12abc 5'' = Some (''12abc'', '' 5'')
   \<and> extract_int ''12abc'' = Some (12, ''abc'')
   \<and> spec_read_numbers ''7 12abc 5'' = [7]
   \<and> read_numbers ''mixed.txt'' example_world = (Inr [7, 12], example_world)
   \<and> read_numbers_reg ''mixed.txt'' example_world = (Inr [7, 12], example_world)
   \<and> files trailing_world ''words.txt'' = Some ''4 x 5''
   \<and> rejected_token ''4 x 5'' = Some (''x'', '' 5'')
   \<and> extract_int ''x'' = None
   \<and> read_numbers ''words.txt'' trailing_world = (Inr [4], trailing_world)
   \<and> files example_world ''numbers.txt'' = Some ''3 4 5 6 7 8''
   \<and> rejected_token ''3 4 5 6 7 8'' = None
   \<and> read_numbers ''numbers.txt'' example_world = (Inr [3, 4, 5, 6, 7, 8], example_world)"
proof -
  note token_eval = int_token_def spec_decimal_def isdigit_def isspace_def decimal_def
    digit_val_def
  have mixed: "files example_world ''mixed.txt'' = Some ''7 12abc 5''"
    and numbers: "files example_world ''numbers.txt'' = Some ''3 4 5 6 7 8''"
    by (simp_all add: example_world_simps)
  have words: "files trailing_world ''words.txt'' = Some ''4 x 5''"
    by (simp add: trailing_world_def)
  have rej_mixed: "rejected_token ''7 12abc 5'' = Some (''12abc'', '' 5'')"
    by (simp add: rejected_token.simps token_eval)
  have rej_words: "rejected_token ''4 x 5'' = Some (''x'', '' 5'')"
    by (simp add: rejected_token.simps token_eval)
  have rej_numbers: "rejected_token ''3 4 5 6 7 8'' = None"
    by (simp add: rejected_token.simps token_eval)
  have ex_mixed: "extract_int ''12abc'' = Some (12, ''abc'')"
    and ex_words: "extract_int ''x'' = None"
    by (simp_all add: extract_eval)
  have spec_mixed: "spec_read_numbers ''7 12abc 5'' = [7]"
    and spec_words: "spec_read_numbers ''4 x 5'' = [4]"
    and spec_numbers: "spec_read_numbers ''3 4 5 6 7 8'' = [3, 4, 5, 6, 7, 8]"
    by (simp_all add: spec_read_numbers_def tokens.simps token_eval)
  have tail: "read_loop (''abc'' @ '' 5'') = []"
    by (simp add: read_loop.simps extract_eval)
  from read_numbers_token_prefix [OF mixed, where t = "''12abc''" and after = "'' 5''"
      and v = 12 and rest = "''abc''"] rej_mixed ex_mixed spec_mixed tail
  have a: "read_numbers ''mixed.txt'' example_world = (Inr [7, 12], example_world)"
    "read_numbers_reg ''mixed.txt'' example_world = (Inr [7, 12], example_world)"
    by simp_all
  from read_numbers_token_prefix [OF words, where t = "''x''" and after = "'' 5''"]
    rej_words ex_words spec_words
  have b: "read_numbers ''words.txt'' trailing_world = (Inr [4], trailing_world)"
    by simp
  from read_numbers_token_prefix [OF numbers] rej_numbers spec_numbers
  have c: "read_numbers ''numbers.txt'' example_world = (Inr [3, 4, 5, 6, 7, 8], example_world)"
    by simp
  from mixed numbers words rej_mixed rej_words rej_numbers ex_mixed ex_words spec_mixed a b c
  show ?thesis
    by simp
qed

end
